theory Spec2Isabelle
  imports Complex_Main "HOL-Library.AList"
begin

section \<open>Python values, errors and strings\<close>

text \<open>
  The development embeds \<^verbatim>\<open>src/benchmark/evaluation/metrics.py\<close>: the two format
  adapters of \<^verbatim>\<open>DiarizationMetrics\<close> and the class \<^verbatim>\<open>MetricAggregator\<close>.
  Exceptions are values of \<open>py_error\<close>; a function that may raise returns
  \<open>py_error + 'a\<close>. A Python \<^verbatim>\<open>float\<close> is modelled by the real number it denotes:
  rounding, infinities and NaN are outside the model. A character is a code point
  below 256.
\<close>

datatype py_error = ValueError | KeyError | TypeError | AttributeError

datatype pyval =
    PNone
  | PBool bool
  | PInt int
  | PFloat real
  | PStr string
  | PList "pyval list"
  | PDict "(string \<times> pyval) list"

text \<open>\<^verbatim>\<open>str.isspace\<close> on one character: the white-space code points below 256.\<close>

definition isspace :: "char \<Rightarrow> bool" where
  "isspace c = (of_char c \<in> {9, 10, 11, 12, 13, 28, 29, 30, 31, 32, 133, 160 :: nat})"

text \<open>\<^verbatim>\<open>str.strip()\<close>: white space removed at both ends.\<close>

definition strip :: "string \<Rightarrow> string" where
  "strip s = rev (dropWhile isspace (rev (dropWhile isspace s)))"

text \<open>
  \<^verbatim>\<open>str.split()\<close> without arguments: the maximal runs of characters that are not white
  space, in order. The first argument is the run being read, reversed.
\<close>

fun split_run :: "string \<Rightarrow> string \<Rightarrow> string list" where
  "split_run run [] = (if run = [] then [] else [rev run])"
| "split_run run (c # cs) =
     (if isspace c
      then (if run = [] then split_run [] cs else rev run # split_run [] cs)
      else split_run (c # run) cs)"

definition split :: "string \<Rightarrow> string list" where
  "split s = split_run [] s"

definition startswith :: "string \<Rightarrow> string \<Rightarrow> bool" where
  "startswith s p = (take (length p) s = p)"

text \<open>
  Iterating over a file opened in text mode yields its lines, each with its terminating
  newline; a last line without newline is yielded when it is not empty. The argument is
  the text after the newline translation of text mode.
\<close>

fun file_lines_run :: "string \<Rightarrow> string \<Rightarrow> string list" where
  "file_lines_run run [] = (if run = [] then [] else [rev run])"
| "file_lines_run run (c # cs) =
     (if c = CHR 0x0A then rev (c # run) # file_lines_run [] cs
      else file_lines_run (c # run) cs)"

definition file_lines :: "string \<Rightarrow> string list" where
  "file_lines text = file_lines_run [] text"

section \<open>Segment timelines\<close>

text \<open>
  Modelled from the spec: the classes \<^verbatim>\<open>Segment\<close> and \<^verbatim>\<open>Annotation\<close> come from the
  library \<^verbatim>\<open>pyannote.core\<close>, which is not part of the sources. The spec (Data model)
  describes a Segment Timeline as an ordered collection of Labeled Segments, a Labeled
  Segment as one (interval, speaker label) pair, the atomic unit inserted into a timeline,
  and says that the structure does not merge insertions. So a timeline is the list of the
  Labeled Segments inserted, in insertion order, and \<^verbatim>\<open>annotation[segment] = speaker\<close>
  appends one.
\<close>

type_synonym ('t, 'l) labeled_segment = "('t \<times> 't) \<times> 'l"
type_synonym ('t, 'l) timeline = "('t, 'l) labeled_segment list"

definition Segment :: "'t \<Rightarrow> 't \<Rightarrow> 't \<times> 't" where
  "Segment start end = (start, end)"

definition Annotation :: "('t, 'l) timeline" where
  "Annotation = []"

definition setitem :: "('t, 'l) timeline \<Rightarrow> 't \<times> 't \<Rightarrow> 'l \<Rightarrow> ('t, 'l) timeline" where
  "setitem annotation segment label = annotation @ [(segment, label)]"

section \<open>The RTTM adapter\<close>

text \<open>
  \<^verbatim>\<open>DiarizationMetrics.rttm_to_annotation\<close>. The builtin \<^verbatim>\<open>float\<close> applied to a
  field is the parameter \<open>pf\<close>: \<open>None\<close> is its \<^verbatim>\<open>ValueError\<close>. The loop body follows
  the source line by line; an exception leaves the loop, and the function, at once.
\<close>

fun rttm_loop ::
  "(string \<Rightarrow> real option) \<Rightarrow> (real, string) timeline \<Rightarrow> string list
     \<Rightarrow> py_error + (real, string) timeline" where
  "rttm_loop pf annotation [] = Inr annotation"
| "rttm_loop pf annotation (line0 # rest) =
     (let line = strip line0 in
      if line = [] \<or> startswith line ''#'' then rttm_loop pf annotation rest
      else
        let parts = split line in
        if length parts < 8 \<or> parts ! 0 \<noteq> ''SPEAKER'' then rttm_loop pf annotation rest
        else
          (case pf (parts ! 3) of
             None \<Rightarrow> Inl ValueError
           | Some start \<Rightarrow>
              (case pf (parts ! 4) of
                 None \<Rightarrow> Inl ValueError
               | Some duration \<Rightarrow>
                  let speaker = parts ! 7;
                      segment = Segment start (start + duration)
                  in rttm_loop pf (setitem annotation segment speaker) rest)))"

definition rttm_to_annotation ::
  "(string \<Rightarrow> real option) \<Rightarrow> string \<Rightarrow> py_error + (real, string) timeline" where
  "rttm_to_annotation pf text = rttm_loop pf Annotation (file_lines text)"

text \<open>
  A reading of \<^verbatim>\<open>float\<close> on plain decimal numerals: an optional sign, digits, and
  an optional point followed by digits, with a digit on at least one side of the point.
  On these strings \<^verbatim>\<open>float\<close> returns the nearest double, which is the value itself
  for the numerals used below. Other spellings that \<^verbatim>\<open>float\<close> accepts (exponents,
  \<open>inf\<close>, \<open>nan\<close>, underscores) are not read here: the function instantiates
  \<open>pf\<close> at the concrete inputs below only, where it agrees with \<^verbatim>\<open>float\<close>.
\<close>

definition isdigit :: "char \<Rightarrow> bool" where
  "isdigit c = (48 \<le> (of_char c :: nat) \<and> (of_char c :: nat) \<le> 57)"

fun digits_value :: "nat \<Rightarrow> string \<Rightarrow> nat" where
  "digits_value acc [] = acc"
| "digits_value acc (c # cs) = digits_value (10 * acc + (of_char c - 48)) cs"

definition unsigned_decimal :: "string \<Rightarrow> real option" where
  "unsigned_decimal s =
     (let ip = takeWhile isdigit s; rest = dropWhile isdigit s in
      case rest of
        [] \<Rightarrow> if ip = [] then None else Some (real (digits_value 0 ip))
      | c # fp \<Rightarrow>
          if c = CHR ''.'' \<and> list_all isdigit fp \<and> (ip \<noteq> [] \<or> fp \<noteq> [])
          then Some (real (digits_value 0 (ip @ fp)) / 10 ^ length fp)
          else None)"

definition decimal_float :: "string \<Rightarrow> real option" where
  "decimal_float s =
     (case s of
        [] \<Rightarrow> None
      | c # cs \<Rightarrow>
          if c = CHR ''-'' then map_option uminus (unsigned_decimal cs)
          else if c = CHR ''+'' then unsigned_decimal cs
          else unsigned_decimal s)"


text \<open>
  The claims speak of the lines the parser skips and of the Labeled Segment of a line
  that remains. \<open>skipped\<close> follows the spec's four cases, on the line as read;
  \<open>remaining\<close> are the other lines of a text, and \<open>line_segment\<close> is the
  Labeled Segment (start, start + duration, speaker) of fields 4, 5 and 8.
\<close>

definition skipped :: "string \<Rightarrow> bool" where
  "skipped l = (list_all isspace l \<or> startswith l ''#'' \<or> length (split l) < 8
                \<or> hd (split l) \<noteq> ''SPEAKER'')"

definition remaining :: "string \<Rightarrow> string list" where
  "remaining text = filter (\<lambda>l. \<not> skipped l) (file_lines text)"

definition line_segment ::
  "(string \<Rightarrow> real option) \<Rightarrow> string \<Rightarrow> (real, string) labeled_segment option" where
  "line_segment pf l =
     (case (pf (split l ! 3), pf (split l ! 4)) of
        (Some start, Some duration) \<Rightarrow> Some ((start, start + duration), split l ! 7)
      | _ \<Rightarrow> None)"

definition same_fields :: "string \<Rightarrow> string \<Rightarrow> bool" where
  "same_fields l1 l2 =
     (skipped l1 = skipped l2 \<and>
      (\<not> skipped l1 \<longrightarrow>
         split l1 ! 3 = split l2 ! 3 \<and> split l1 ! 4 = split l2 ! 4 \<and>
         split l1 ! 7 = split l2 ! 7))"

section \<open>The hypothesis adapter\<close>

text \<open>
  \<^verbatim>\<open>DiarizationMetrics.hypothesis_to_annotation\<close>. The hypothesis is a
  \<^verbatim>\<open>dict[str, Any]\<close>: an association list from keys to values. \<open>subscript\<close> is
  \<^verbatim>\<open>v[k]\<close> for a string key, \<open>iterate\<close> the sequence a \<^verbatim>\<open>for\<close> loop runs
  through.
\<close>

definition dict_get :: "(string \<times> pyval) list \<Rightarrow> string \<Rightarrow> pyval \<Rightarrow> pyval" where
  "dict_get d k dflt = (case map_of d k of None \<Rightarrow> dflt | Some v \<Rightarrow> v)"

fun subscript :: "pyval \<Rightarrow> string \<Rightarrow> py_error + pyval" where
  "subscript (PDict d) k = (case map_of d k of None \<Rightarrow> Inl KeyError | Some v \<Rightarrow> Inr v)"
| "subscript v k = Inl TypeError"

fun iterate :: "pyval \<Rightarrow> py_error + pyval list" where
  "iterate (PList xs) = Inr xs"
| "iterate (PDict d) = Inr (map (\<lambda>kv. PStr (fst kv)) d)"
| "iterate (PStr s) = Inr (map (\<lambda>c. PStr [c]) s)"
| "iterate v = Inl TypeError"

fun hypothesis_loop ::
  "(pyval, pyval) timeline \<Rightarrow> pyval list \<Rightarrow> py_error + (pyval, pyval) timeline" where
  "hypothesis_loop annotation [] = Inr annotation"
| "hypothesis_loop annotation (segment_data # rest) =
     (case subscript segment_data ''start'' of
        Inl e \<Rightarrow> Inl e
      | Inr start \<Rightarrow>
         (case subscript segment_data ''end'' of
            Inl e \<Rightarrow> Inl e
          | Inr end \<Rightarrow>
             (case subscript segment_data ''speaker'' of
                Inl e \<Rightarrow> Inl e
              | Inr speaker \<Rightarrow>
                 let segment = Segment start end
                 in hypothesis_loop (setitem annotation segment speaker) rest)))"

definition hypothesis_to_annotation ::
  "(string \<times> pyval) list \<Rightarrow> py_error + (pyval, pyval) timeline" where
  "hypothesis_to_annotation hypothesis =
     (case iterate (dict_get hypothesis ''segments'' (PList [])) of
        Inl e \<Rightarrow> Inl e
      | Inr items \<Rightarrow> hypothesis_loop Annotation items)"

text \<open>
  The shape of a hypothesis record: the value under \<^verbatim>\<open>segments\<close>, when the key is
  there, is a list of dictionaries. \<open>entries\<close> are these dictionaries; an entry
  \<open>lacks_key\<close> when one of the three keys is missing.
\<close>

fun is_dict :: "pyval \<Rightarrow> bool" where
  "is_dict (PDict d) = True"
| "is_dict v = False"

definition entries :: "(string \<times> pyval) list \<Rightarrow> pyval list" where
  "entries hypothesis =
     (case map_of hypothesis ''segments'' of Some (PList es) \<Rightarrow> es | _ \<Rightarrow> [])"

definition record_shape :: "(string \<times> pyval) list \<Rightarrow> bool" where
  "record_shape hypothesis =
     (case map_of hypothesis ''segments'' of
        None \<Rightarrow> True
      | Some (PList es) \<Rightarrow> list_all is_dict es
      | Some v \<Rightarrow> False)"

fun lacks_key :: "pyval \<Rightarrow> bool" where
  "lacks_key (PDict d) =
     (map_of d ''start'' = None \<or> map_of d ''end'' = None \<or> map_of d ''speaker'' = None)"
| "lacks_key v = True"

fun entry_segment :: "pyval \<Rightarrow> (pyval, pyval) labeled_segment" where
  "entry_segment (PDict d) =
     ((the (map_of d ''start''), the (map_of d ''end'')), the (map_of d ''speaker''))"
| "entry_segment v = ((PNone, PNone), PNone)"

section \<open>The aggregator\<close>

text \<open>
  \<^verbatim>\<open>MetricAggregator\<close> keeps a list of records, each holding a reference to the
  metrics dictionary its caller passed. Since the claims speak of fresh results and of
  records left unchanged, the objects live in a store: a heap is the list of the objects
  allocated so far, an address is an index into it, and a new object gets the next index.
  A value is immediate or a reference to an object.
\<close>

type_synonym addr = nat

datatype hval = HNone | HBool bool | HInt int | HFloat real | HStr string | Ref addr

datatype obj = ODict "(string \<times> hval) list" | OList "hval list"

type_synonym heap = "obj list"

definition alloc :: "heap \<Rightarrow> obj \<Rightarrow> addr \<times> heap" where
  "alloc h ob = (length h, h @ [ob])"

definition deref :: "heap \<Rightarrow> addr \<Rightarrow> obj option" where
  "deref h a = (if a < length h then Some (h ! a) else None)"

text \<open>\<^verbatim>\<open>v[k]\<close> and \<^verbatim>\<open>v.items()\<close> on a value of the store.\<close>

definition getitem :: "heap \<Rightarrow> hval \<Rightarrow> string \<Rightarrow> py_error + hval" where
  "getitem h v k =
     (case v of
        Ref a \<Rightarrow>
          (case deref h a of
             Some (ODict d) \<Rightarrow> (case map_of d k of None \<Rightarrow> Inl KeyError | Some x \<Rightarrow> Inr x)
           | _ \<Rightarrow> Inl TypeError)
      | _ \<Rightarrow> Inl TypeError)"

definition dict_items :: "heap \<Rightarrow> hval \<Rightarrow> py_error + (string \<times> hval) list" where
  "dict_items h v =
     (case v of
        Ref a \<Rightarrow> (case deref h a of Some (ODict d) \<Rightarrow> Inr d | _ \<Rightarrow> Inl AttributeError)
      | _ \<Rightarrow> Inl AttributeError)"

text \<open>
  The instance has the one attribute \<^verbatim>\<open>self.metrics\<close>, assigned in
  \<^verbatim>\<open>__init__\<close> only: the address of the list of records.
\<close>

record MetricAggregator =
  self_metrics :: addr

definition init :: "heap \<Rightarrow> MetricAggregator \<times> heap" where
  "init h = (case alloc h (OList []) of (l, h') \<Rightarrow> (\<lparr>self_metrics = l\<rparr>, h'))"

text \<open>
  \<^verbatim>\<open>add\<close>: a new dictionary with the keys \<^verbatim>\<open>metrics\<close> and \<^verbatim>\<open>file_id\<close> is appended
  to the list. In a heap where \<^verbatim>\<open>self.metrics\<close> is not a list (no state of the
  program) the call fails.
\<close>

definition add :: "MetricAggregator \<Rightarrow> hval \<Rightarrow> hval \<Rightarrow> heap \<Rightarrow> py_error + heap" where
  "add self metrics file_id h =
     (case deref h (self_metrics self) of
        Some (OList items) \<Rightarrow>
          (case alloc h (ODict [(''metrics'', metrics), (''file_id'', file_id)]) of
             (item, h1) \<Rightarrow> Inr (h1[self_metrics self := OList (items @ [Ref item])]))
      | _ \<Rightarrow> Inl AttributeError)"

text \<open>
  \<^verbatim>\<open>isinstance(value, (int, float))\<close> and \<^verbatim>\<open>float(value)\<close>: a \<^verbatim>\<open>bool\<close> is an
  \<^verbatim>\<open>int\<close> in Python.
\<close>

fun numeric :: "hval \<Rightarrow> real option" where
  "numeric (HInt i) = Some (real_of_int i)"
| "numeric (HFloat x) = Some x"
| "numeric (HBool b) = Some (if b then 1 else 0)"
| "numeric v = None"

text \<open>
  The local dictionary \<^verbatim>\<open>metric_values\<close> never leaves the function: it is an
  association list in insertion order. \<open>AList.update\<close> is the assignment
  \<^verbatim>\<open>d[k] = v\<close> (in place for a key that is there, at the end for a new one) and
  \<open>AList.map_entry\<close> the \<^verbatim>\<open>append\<close> on the list stored under a key.
  \<open>collect_items\<close> is the inner loop over \<^verbatim>\<open>item["metrics"].items()\<close>,
  \<open>collect\<close> the outer loop over \<^verbatim>\<open>self.metrics\<close>.
\<close>

fun collect_items ::
  "(string \<times> real list) list \<Rightarrow> (string \<times> hval) list \<Rightarrow> (string \<times> real list) list" where
  "collect_items metric_values [] = metric_values"
| "collect_items metric_values ((metric_name, value) # rest) =
     (case numeric value of
        Some x \<Rightarrow>
          let mv1 = (if metric_name \<notin> set (map fst metric_values)
                     then AList.update metric_name [] metric_values
                     else metric_values);
              mv2 = AList.map_entry metric_name (\<lambda>values. values @ [x]) mv1
          in collect_items mv2 rest
      | None \<Rightarrow> collect_items metric_values rest)"

fun collect ::
  "heap \<Rightarrow> (string \<times> real list) list \<Rightarrow> hval list \<Rightarrow> py_error + (string \<times> real list) list" where
  "collect h metric_values [] = Inr metric_values"
| "collect h metric_values (item # rest) =
     (case getitem h item ''metrics'' of
        Inl e \<Rightarrow> Inl e
      | Inr m \<Rightarrow>
         (case dict_items h m of
            Inl e \<Rightarrow> Inl e
          | Inr kvs \<Rightarrow> collect h (collect_items metric_values kvs) rest))"

text \<open>
  The functions of the module \<^verbatim>\<open>statistics\<close>, on the non-empty lists they are
  called with here (a list enters \<^verbatim>\<open>metric_values\<close> together with its first value).
\<close>

definition mean :: "real list \<Rightarrow> real" where
  "mean data = sum_list data / real (length data)"

definition stdev :: "real list \<Rightarrow> real" where
  "stdev data =
     sqrt ((\<Sum>x\<leftarrow>data. (x - mean data)\<^sup>2) / real (length data - 1))"

definition median :: "real list \<Rightarrow> real" where
  "median data =
     (let s = sort data; n = length s in
      if n mod 2 = 1 then s ! (n div 2)
      else (s ! (n div 2 - 1) + s ! (n div 2)) / 2)"

text \<open>The body of the second loop: the five entries of one metric.\<close>

definition aggregate_entry ::
  "(string \<times> hval) list \<Rightarrow> string \<times> real list \<Rightarrow> (string \<times> hval) list" where
  "aggregate_entry aggregated nv =
     (case nv of (metric_name, values) \<Rightarrow>
        let a1 = AList.update (metric_name @ ''_mean'') (HFloat (mean values)) aggregated;
            a2 = AList.update (metric_name @ ''_std'')
                   (HFloat (if length values > 1 then stdev values else 0)) a1;
            a3 = AList.update (metric_name @ ''_min'') (HFloat (Min (set values))) a2;
            a4 = AList.update (metric_name @ ''_max'') (HFloat (Max (set values))) a3
        in AList.update (metric_name @ ''_median'') (HFloat (median values)) a4)"

text \<open>
  \<^verbatim>\<open>aggregate\<close> returns the address of a newly allocated dictionary, and the heap
  with it. Logging is not modelled.
\<close>

definition aggregate :: "MetricAggregator \<Rightarrow> heap \<Rightarrow> py_error + (addr \<times> heap)" where
  "aggregate self h =
     (case deref h (self_metrics self) of
        Some (OList items) \<Rightarrow>
          if items = [] then Inr (alloc h (ODict []))
          else
            (case collect h [] items of
               Inl e \<Rightarrow> Inl e
             | Inr metric_values \<Rightarrow>
                let aggregated = foldl aggregate_entry [] metric_values;
                    aggregated' = AList.update ''num_files'' (HInt (int (length items))) aggregated
                in Inr (alloc h (ODict aggregated')))
      | _ \<Rightarrow> Inl TypeError)"

definition get_per_file_metrics :: "MetricAggregator \<Rightarrow> hval" where
  "get_per_file_metrics self = Ref (self_metrics self)"

text \<open>
  What a caller reads behind the value \<^verbatim>\<open>get_per_file_metrics\<close> returns: the
  records of the list, in order, each as the pair of its \<^verbatim>\<open>metrics\<close> and
  \<^verbatim>\<open>file_id\<close> entries. \<open>metrics_of\<close> reads the dictionary behind a reference, and
  \<open>adds\<close> is a sequence of calls of \<^verbatim>\<open>add\<close>.
\<close>

definition item_record :: "heap \<Rightarrow> hval \<Rightarrow> (hval \<times> hval) option" where
  "item_record h item =
     (case item of
        Ref a \<Rightarrow>
          (case deref h a of
             Some (ODict r) \<Rightarrow>
               (case (map_of r ''metrics'', map_of r ''file_id'') of
                  (Some m, Some f) \<Rightarrow> Some (m, f)
                | _ \<Rightarrow> None)
           | _ \<Rightarrow> None)
      | _ \<Rightarrow> None)"

definition per_file :: "heap \<Rightarrow> hval \<Rightarrow> (hval \<times> hval) list option" where
  "per_file h v =
     (case v of
        Ref l \<Rightarrow>
          (case deref h l of
             Some (OList items) \<Rightarrow> those (map (item_record h) items)
           | _ \<Rightarrow> None)
      | _ \<Rightarrow> None)"

definition metrics_of :: "heap \<Rightarrow> hval \<Rightarrow> (string \<times> hval) list option" where
  "metrics_of h m =
     (case m of
        Ref a \<Rightarrow> (case deref h a of Some (ODict d) \<Rightarrow> Some d | _ \<Rightarrow> None)
      | _ \<Rightarrow> None)"

fun adds :: "MetricAggregator \<Rightarrow> (hval \<times> hval) list \<Rightarrow> heap \<Rightarrow> py_error + heap" where
  "adds self [] h = Inr h"
| "adds self ((metrics, file_id) # rest) h =
     (case add self metrics file_id h of Inl e \<Rightarrow> Inl e | Inr h' \<Rightarrow> adds self rest h')"

text \<open>
  The numeric values a metric name has in one dictionary and across the dictionaries of
  the records, in order, and the names that have one.
\<close>

definition values_in :: "string \<Rightarrow> (string \<times> hval) list \<Rightarrow> real list" where
  "values_in name d = List.map_filter (\<lambda>kv. if fst kv = name then numeric (snd kv) else None) d"

definition values_of :: "string \<Rightarrow> (string \<times> hval) list list \<Rightarrow> real list" where
  "values_of name ds = concat (map (values_in name) ds)"

definition numeric_names :: "(string \<times> hval) list list \<Rightarrow> string set" where
  "numeric_names ds =
     set (map fst (filter (\<lambda>kv. numeric (snd kv) \<noteq> None) (concat ds)))"

text \<open>
  The keys \<^verbatim>\<open>aggregate\<close> writes for a metric name are the name followed by one of
  five suffixes; \<open>stats_map\<close> is the mapping from these keys to the statistics of a
  list of values.
\<close>

definition stat_suffixes :: "string set" where
  "stat_suffixes = {''_mean'', ''_std'', ''_min'', ''_max'', ''_median''}"

definition stats_map :: "string \<Rightarrow> real list \<Rightarrow> (string \<rightharpoonup> hval)" where
  "stats_map name values =
     [name @ ''_mean'' \<mapsto> HFloat (mean values),
      name @ ''_std'' \<mapsto> HFloat (if length values > 1 then stdev values else 0),
      name @ ''_min'' \<mapsto> HFloat (Min (set values)),
      name @ ''_max'' \<mapsto> HFloat (Max (set values)),
      name @ ''_median'' \<mapsto> HFloat (median values)]"

text \<open>
  The dictionary \<^verbatim>\<open>aggregate\<close> builds, as a function of the metrics dictionaries
  of the records, in order: the early return, the two loops and the last assignment.
\<close>

definition summary :: "(string \<times> hval) list list \<Rightarrow> (string \<times> hval) list" where
  "summary ds =
     (if ds = [] then []
      else AList.update ''num_files'' (HInt (int (length ds)))
             (foldl aggregate_entry [] (foldl collect_items [] ds)))"

section \<open>Inputs of the spec's testable properties\<close>

text \<open>
  The two RTTM texts of the spec (round trip, malformed-line tolerance), a line whose
  start field is not a number, two hypothesis records in the format of the test
  fixtures, and a store with three metrics dictionaries holding the DER values 0.10,
  0.20 and 0.30, before and after they are added to a new aggregator.
\<close>

definition roundtrip_text :: string where
  "roundtrip_text =
     ''SPEAKER f1 1 0.0 2.5 <NA> <NA> A <NA>\<newline>'' @
     ''SPEAKER f1 1 2.5 3.0 <NA> <NA> B <NA>\<newline>''"

definition tolerance_text :: string where
  "tolerance_text =
     ''# comment\<newline>'' @
     ''SPEAKER f1 1 0.0\<newline>'' @
     ''SPEAKER f1 1 2.5 3.0 <NA> <NA> B <NA>\<newline>''"

definition other_files_text :: string where
  "other_files_text =
     ''SPEAKER f2 7 0.0 2.5 x y A z more\<newline>'' @
     ''SPEAKER f3 1 2.5 3.0 <NA> <NA> B\<newline>''"

definition nonnumeric_text :: string where
  "nonnumeric_text = ''SPEAKER f1 1 abc 2.5 <NA> <NA> A <NA>\<newline>''"

definition sample_hypothesis :: "(string \<times> pyval) list" where
  "sample_hypothesis =
     [(''segments'', PList
        [PDict [(''start'', PFloat 0), (''end'', PFloat (5 / 2)), (''speaker'', PStr ''SPEAKER_00'')],
         PDict [(''start'', PFloat (5 / 2)), (''end'', PFloat (11 / 2)),
                (''speaker'', PStr ''SPEAKER_01'')]])]"

definition broken_hypothesis :: "(string \<times> pyval) list" where
  "broken_hypothesis =
     [(''segments'', PList
        [PDict [(''start'', PFloat 0), (''end'', PFloat (5 / 2)), (''speaker'', PStr ''SPEAKER_00'')],
         PDict [(''start'', PFloat (5 / 2)), (''speaker'', PStr ''SPEAKER_01'')]]),
      (''num_speakers'', PInt 2)]"

definition der_heap :: heap where
  "der_heap =
     [ODict [(''DER'', HFloat (1 / 10))],
      ODict [(''DER'', HFloat (1 / 5))],
      ODict [(''DER'', HFloat (3 / 10))]]"

definition der_records :: "(hval \<times> hval) list" where
  "der_records = [(Ref 0, HStr ''f1''), (Ref 1, HStr ''f2''), (Ref 2, HNone)]"

definition der_state :: heap where
  "der_state =
     der_heap @
     [OList [Ref 4, Ref 5, Ref 6],
      ODict [(''metrics'', Ref 0), (''file_id'', HStr ''f1'')],
      ODict [(''metrics'', Ref 1), (''file_id'', HStr ''f2'')],
      ODict [(''metrics'', Ref 2), (''file_id'', HNone)]]"

section \<open>Properties of the string functions\<close>

lemma split_run_spaces:
  "list_all isspace ws \<Longrightarrow> split_run run ws = (if run = [] then [] else [rev run])"
  by (induction ws arbitrary: run) auto

lemma split_run_append_spaces:
  "list_all isspace ws \<Longrightarrow> split_run run (xs @ ws) = split_run run xs"
  by (induction xs arbitrary: run) (auto simp: split_run_spaces)

lemma split_dropWhile: "split (dropWhile isspace s) = split s"
  by (induction s) (auto simp: split_def)

lemma split_strip: "split (strip s) = split s"
proof -
  define t where "t = dropWhile isspace s"
  have "takeWhile isspace (rev t) @ dropWhile isspace (rev t) = rev t"
    by simp
  then have "rev (dropWhile isspace (rev t)) @ rev (takeWhile isspace (rev t)) = t"
    by (metis rev_append rev_rev_ident)
  moreover have "list_all isspace (rev (takeWhile isspace (rev t)))"
    by (simp add: list_all_iff) (meson set_takeWhileD)
  ultimately have "split_run [] t = split_run [] (rev (dropWhile isspace (rev t)))"
    by (metis split_run_append_spaces)
  then show ?thesis
    using split_dropWhile [of s] by (simp add: split_def strip_def t_def)
qed

lemma split_run_first:
  "run \<noteq> [] \<Longrightarrow> \<exists>t ts. split_run run cs = (rev run @ t) # ts"
proof (induction cs arbitrary: run)
  case Nil
  then show ?case by simp
next
  case (Cons c cs)
  show ?case
  proof (cases "isspace c")
    case True
    with Cons.prems show ?thesis by simp
  next
    case False
    from Cons.IH [of "c # run"] obtain t ts where "split_run (c # run) cs = (rev (c # run) @ t) # ts"
      by blast
    with False show ?thesis by simp
  qed
qed

lemma split_hash: "\<exists>t ts. split (CHR ''#'' # cs) = (CHR ''#'' # t) # ts"
  using split_run_first [of "[CHR ''#'']" cs] by (simp add: split_def isspace_def)

lemma startswith_hash: "startswith s ''#'' \<longleftrightarrow> (\<exists>cs. s = CHR ''#'' # cs)"
  by (cases s) (auto simp: startswith_def)

lemma hash_line_first_field:
  assumes "startswith s ''#''" and "split s = split l"
  shows "length (split l) < 8 \<or> hd (split l) \<noteq> ''SPEAKER''"
proof -
  from assms(1) obtain cs where "s = CHR ''#'' # cs"
    by (auto simp: startswith_hash)
  with split_hash [of cs] assms(2) show ?thesis by auto
qed

lemma skipped_iff: "skipped l \<longleftrightarrow> length (split l) < 8 \<or> hd (split l) \<noteq> ''SPEAKER''"
proof -
  have "list_all isspace l \<Longrightarrow> length (split l) < 8"
    by (simp add: split_def split_run_spaces)
  moreover have "startswith l ''#'' \<Longrightarrow> length (split l) < 8 \<or> hd (split l) \<noteq> ''SPEAKER''"
    by (rule hash_line_first_field [of l l]) simp_all
  ultimately show ?thesis
    unfolding skipped_def by blast
qed

lemma source_skip_iff:
  "(strip l = [] \<or> startswith (strip l) ''#'' \<or> length (split (strip l)) < 8
      \<or> split (strip l) ! 0 \<noteq> ''SPEAKER'') \<longleftrightarrow> skipped l"
proof -
  have "strip l = [] \<Longrightarrow> length (split l) < 8"
    using split_strip [of l] by (simp add: split_def)
  moreover have "startswith (strip l) ''#'' \<Longrightarrow> length (split l) < 8 \<or> hd (split l) \<noteq> ''SPEAKER''"
    by (rule hash_line_first_field [of "strip l" l]) (simp_all add: split_strip)
  moreover have "\<not> length (split l) < 8 \<Longrightarrow> split l ! 0 = hd (split l)"
    by (cases "split l") simp_all
  ultimately show ?thesis
    unfolding skipped_iff split_strip by metis
qed

section \<open>Properties of the RTTM adapter\<close>

text \<open>
  The loop returns the Labeled Segments of the remaining lines, in order, after the
  segments it started with, or raises when \<^verbatim>\<open>float\<close> rejects a field of one of them.
\<close>

lemma rttm_loop_those:
  "rttm_loop pf annotation ls =
     (case those (map (line_segment pf) (filter (\<lambda>l. \<not> skipped l) ls)) of
        None \<Rightarrow> Inl ValueError
      | Some segs \<Rightarrow> Inr (annotation @ segs))"
proof (induction ls arbitrary: annotation)
  case Nil
  then show ?case by simp
next
  case (Cons l ls)
  show ?case
  proof (cases "skipped l")
    case True
    then have "strip l = [] \<or> startswith (strip l) ''#'' \<or> length (split (strip l)) < 8
      \<or> split (strip l) ! 0 \<noteq> ''SPEAKER''"
      using source_skip_iff [of l] by blast
    then show ?thesis using True Cons.IH by (auto simp: Let_def)
  next
    case False
    then have "\<not> (strip l = [] \<or> startswith (strip l) ''#'' \<or> length (split (strip l)) < 8
      \<or> split (strip l) ! 0 \<noteq> ''SPEAKER'')"
      using source_skip_iff [of l] by blast
    then show ?thesis using False Cons.IH
      by (auto simp: Let_def split_strip line_segment_def setitem_def Segment_def
          split: option.splits)
  qed
qed

section \<open>Properties of the hypothesis adapter\<close>

lemma loop_ok:
  "list_all is_dict es \<Longrightarrow> \<forall>e\<in>set es. \<not> lacks_key e \<Longrightarrow>
     hypothesis_loop annotation es = Inr (annotation @ map entry_segment es)"
proof (induction es arbitrary: annotation)
  case Nil
  then show ?case by simp
next
  case (Cons e es)
  from Cons.prems obtain d where e: "e = PDict d" by (cases e) auto
  from Cons.prems e obtain s t u where
    "map_of d ''start'' = Some s" "map_of d ''end'' = Some t" "map_of d ''speaker'' = Some u"
    by auto
  with Cons e show ?case
    by (simp add: setitem_def Segment_def)
qed

lemma loop_error:
  "list_all is_dict es \<Longrightarrow> hypothesis_loop annotation es = Inl err \<Longrightarrow>
     err = KeyError \<and> (\<exists>e\<in>set es. lacks_key e)"
proof (induction es arbitrary: annotation)
  case Nil
  then show ?case by simp
next
  case (Cons e es)
  from Cons.prems obtain d where e: "e = PDict d" by (cases e) auto
  show ?case
  proof (cases "lacks_key e")
    case True
    with Cons.prems e show ?thesis
      by (auto split: option.splits sum.splits)
  next
    case False
    with e obtain s t u where
      "map_of d ''start'' = Some s" "map_of d ''end'' = Some t" "map_of d ''speaker'' = Some u"
      by auto
    with Cons e show ?thesis
      by (auto simp: Let_def)
  qed
qed

section \<open>Properties of the store\<close>

lemma those_map_Some: "those (map Some ys) = Some ys"
  by (induction ys) simp_all

lemma those_eq_Some: "those xs = Some ys \<longleftrightarrow> xs = map Some ys"
proof
  show "those xs = Some ys \<Longrightarrow> xs = map Some ys"
    by (induction xs arbitrary: ys) (auto split: option.splits)
qed (simp add: those_map_Some)

lemma map_item_record_mono:
  assumes "map (item_record h) items = map Some rs"
    and "\<And>item r. item_record h item = Some r \<Longrightarrow> item_record h' item = Some r"
  shows "map (item_record h') items = map Some rs"
  using assms(1)
proof (induction items arbitrary: rs)
  case Nil
  then show ?case by simp
next
  case (Cons item items)
  then show ?case by (cases rs) (auto simp: assms(2))
qed

lemma deref_append:
  "deref (h @ [ob]) a =
     (if a < length h then deref h a else if a = length h then Some ob else None)"
  by (simp add: deref_def nth_append)

lemma deref_Some_append: "deref h a = Some x \<Longrightarrow> deref (h @ hs) a = Some x"
  by (auto simp: deref_def nth_append split: if_splits)

lemma item_record_append:
  "item_record h item = Some r \<Longrightarrow> item_record (h @ hs) item = Some r"
  by (auto simp: item_record_def deref_Some_append split: hval.splits option.splits obj.splits)

lemma metrics_of_append: "metrics_of h m = Some d \<Longrightarrow> metrics_of (h @ hs) m = Some d"
  by (auto simp: metrics_of_def deref_Some_append split: hval.splits option.splits obj.splits)

lemma per_file_append:
  assumes "per_file h v = Some rs"
  shows "per_file (h @ hs) v = Some rs"
proof -
  from assms obtain l items where v: "v = Ref l" and l: "deref h l = Some (OList items)"
    and items: "map (item_record h) items = map Some rs"
    by (auto simp: per_file_def those_eq_Some split: hval.splits option.splits obj.splits)
  from items have "map (item_record (h @ hs)) items = map Some rs"
    by (rule map_item_record_mono) (rule item_record_append)
  with v l show ?thesis
    by (simp add: per_file_def those_eq_Some deref_Some_append)
qed

text \<open>Updating the list object of the aggregator leaves every dictionary in place.\<close>

lemma deref_update_list:
  "deref (h[l := OList xs]) a =
     (if a = l \<and> l < length h then Some (OList xs) else deref h a)"
  by (simp add: deref_def)

lemma item_record_update_list:
  "deref h l = Some (OList ys) \<Longrightarrow> item_record h item = Some r \<Longrightarrow>
     item_record (h[l := OList xs]) item = Some r"
  by (auto simp: item_record_def deref_update_list split: hval.splits option.splits obj.splits)

lemma metrics_of_update_list:
  "deref h l = Some (OList ys) \<Longrightarrow> metrics_of h m = Some d \<Longrightarrow>
     metrics_of (h[l := OList xs]) m = Some d"
  by (auto simp: metrics_of_def deref_update_list split: hval.splits option.splits obj.splits)

lemma add_result:
  assumes "deref h (self_metrics self) = Some (OList items)"
  shows "add self metrics file_id h =
           Inr ((h @ [ODict [(''metrics'', metrics), (''file_id'', file_id)]])
                  [self_metrics self := OList (items @ [Ref (length h)])])"
  using assms by (simp add: add_def alloc_def)

lemma add_per_file:
  assumes "per_file h (get_per_file_metrics self) = Some rs"
  shows "\<exists>h'. add self metrics file_id h = Inr h' \<and> length h' = Suc (length h) \<and>
               per_file h' (get_per_file_metrics self) = Some (rs @ [(metrics, file_id)]) \<and>
               (\<forall>m d. metrics_of h m = Some d \<longrightarrow> metrics_of h' m = Some d)"
proof -
  let ?l = "self_metrics self"
  let ?r = "ODict [(''metrics'', metrics), (''file_id'', file_id)]"
  from assms obtain items where l: "deref h ?l = Some (OList items)"
    and items: "map (item_record h) items = map Some rs"
    by (auto simp: per_file_def get_per_file_metrics_def those_eq_Some
        split: hval.splits option.splits obj.splits)
  let ?h' = "(h @ [?r])[?l := OList (items @ [Ref (length h)])]"
  from l have lt: "?l < length h" by (auto simp: deref_def split: if_splits)
  have res: "add self metrics file_id h = Inr ?h'"
    using l by (rule add_result)
  have new: "item_record ?h' (Ref (length h)) = Some (metrics, file_id)"
    using lt by (simp add: item_record_def deref_update_list deref_append)
  have l': "deref (h @ [?r]) ?l = Some (OList items)"
    using l by (rule deref_Some_append)
  have old: "map (item_record ?h') items = map Some rs"
    using items
    by (rule map_item_record_mono) (intro item_record_update_list [OF l'] item_record_append)
  have "deref ?h' ?l = Some (OList (items @ [Ref (length h)]))"
    using lt by (simp add: deref_update_list)
  with new old have "per_file ?h' (get_per_file_metrics self) = Some (rs @ [(metrics, file_id)])"
    by (simp add: per_file_def get_per_file_metrics_def those_eq_Some)
  moreover have "\<forall>m d. metrics_of h m = Some d \<longrightarrow> metrics_of ?h' m = Some d"
    by (intro allI impI metrics_of_update_list [OF l'] metrics_of_append)
  ultimately show ?thesis using res by simp
qed

lemma adds_per_file:
  assumes "per_file h (get_per_file_metrics self) = Some rs0"
  shows "\<exists>h'. adds self rs h = Inr h' \<and> length h' = length h + length rs \<and>
               per_file h' (get_per_file_metrics self) = Some (rs0 @ rs) \<and>
               (\<forall>m d. metrics_of h m = Some d \<longrightarrow> metrics_of h' m = Some d)"
  using assms
proof (induction rs arbitrary: h rs0)
  case Nil
  then show ?case by simp
next
  case (Cons r rs)
  obtain metrics file_id where r: "r = (metrics, file_id)" by (cases r)
  from add_per_file [OF Cons.prems, of metrics file_id] obtain h1 where
    h1: "add self metrics file_id h = Inr h1" "length h1 = Suc (length h)"
      "per_file h1 (get_per_file_metrics self) = Some (rs0 @ [(metrics, file_id)])"
      "\<forall>m d. metrics_of h m = Some d \<longrightarrow> metrics_of h1 m = Some d"
    by blast
  from Cons.IH [OF h1(3)] obtain h' where
    h': "adds self rs h1 = Inr h'" "length h' = length h1 + length rs"
      "per_file h' (get_per_file_metrics self) = Some ((rs0 @ [(metrics, file_id)]) @ rs)"
      "\<forall>m d. metrics_of h1 m = Some d \<longrightarrow> metrics_of h' m = Some d"
    by blast
  with h1 r show ?case by simp
qed

lemma init_per_file:
  assumes "init h0 = (self, h1)"
  shows "h1 = h0 @ [OList []]" and "self_metrics self = length h0"
    and "per_file h1 (get_per_file_metrics self) = Some []"
  using assms
  by (auto simp: init_def alloc_def per_file_def get_per_file_metrics_def deref_append)

section \<open>Properties of the two loops of aggregate\<close>

lemma values_in_Cons:
  "values_in name ((k, v) # d) =
     (if k = name then (case numeric v of None \<Rightarrow> values_in name d | Some x \<Rightarrow> x # values_in name d)
      else values_in name d)"
  by (simp add: values_in_def List.map_filter_simps split: option.splits)

lemma values_in_Nil: "values_in name [] = []"
  by (simp add: values_in_def List.map_filter_simps)

lemma map_of_collect_items:
  "map_of (collect_items mv d) name =
     (case map_of mv name of
        None \<Rightarrow> if values_in name d = [] then None else Some (values_in name d)
      | Some old \<Rightarrow> Some (old @ values_in name d))"
proof (induction mv d rule: collect_items.induct)
  case (1 mv)
  then show ?case by (simp add: values_in_Nil split: option.splits)
next
  case (2 mv k v rest)
  show ?case
  proof (cases "numeric v")
    case None
    then have "values_in name ((k, v) # rest) = values_in name rest"
      by (simp add: values_in_Cons)
    with 2 None show ?thesis by (simp split: option.splits)
  next
    case (Some x)
    let ?mv1 = "if k \<notin> set (map fst mv) then AList.update k [] mv else mv"
    let ?mv2 = "AList.map_entry k (\<lambda>values. values @ [x]) ?mv1"
    have none: "k \<notin> fst ` set mv \<longleftrightarrow> map_of mv k = None"
      by (simp add: map_of_eq_None_iff)
    have mv2: "map_of ?mv2 name =
        (if name = k then Some ((case map_of mv k of None \<Rightarrow> [] | Some old \<Rightarrow> old) @ [x])
         else map_of mv name)"
      by (auto simp: map_of_map_entry update_conv' none split: option.splits)
    have "map_of (collect_items mv ((k, v) # rest)) name = map_of (collect_items ?mv2 rest) name"
      using Some by (simp add: Let_def)
    also have "\<dots> = (case map_of ?mv2 name of
        None \<Rightarrow> if values_in name rest = [] then None else Some (values_in name rest)
      | Some old \<Rightarrow> Some (old @ values_in name rest))"
      using "2.IH"(2) [OF Some refl refl] .
    finally have step: "map_of (collect_items mv ((k, v) # rest)) name =
        (case map_of ?mv2 name of
           None \<Rightarrow> if values_in name rest = [] then None else Some (values_in name rest)
         | Some old \<Rightarrow> Some (old @ values_in name rest))" .
    show ?thesis
    proof (cases "name = k")
      case True
      then have "values_in name ((k, v) # rest) = x # values_in name rest"
        using Some by (simp add: values_in_Cons)
      with True step mv2 show ?thesis
        by (simp split: option.splits)
    next
      case False
      then have "values_in name ((k, v) # rest) = values_in name rest"
        by (simp add: values_in_Cons)
      with False step mv2 show ?thesis
        by (simp split: option.splits)
    qed
  qed
qed

lemma distinct_collect_items:
  "distinct (map fst mv) \<Longrightarrow> distinct (map fst (collect_items mv d))"
proof (induction mv d rule: collect_items.induct)
  case (1 mv)
  then show ?case by simp
next
  case (2 mv k v rest)
  then show ?case
    by (cases "numeric v") (auto simp: Let_def distinct_map_entry distinct_update)
qed

lemma map_of_foldl_collect_items:
  "map_of (foldl collect_items mv ds) name =
     (case map_of mv name of
        None \<Rightarrow> if values_of name ds = [] then None else Some (values_of name ds)
      | Some old \<Rightarrow> Some (old @ values_of name ds))"
proof (induction ds arbitrary: mv)
  case Nil
  then show ?case by (simp add: values_of_def split: option.splits)
next
  case (Cons d ds)
  show ?case
    by (simp add: Cons.IH map_of_collect_items values_of_def split: option.splits)
qed

lemma distinct_foldl_collect_items:
  "distinct (map fst mv) \<Longrightarrow> distinct (map fst (foldl collect_items mv ds))"
  by (induction ds arbitrary: mv) (simp_all add: distinct_collect_items)

lemma getitem_metrics:
  "item_record h item = Some (m, f) \<Longrightarrow> getitem h item ''metrics'' = Inr m"
  by (auto simp: item_record_def getitem_def split: hval.splits option.splits obj.splits)

lemma dict_items_metrics: "metrics_of h m = Some d \<Longrightarrow> dict_items h m = Inr d"
  by (auto simp: metrics_of_def dict_items_def split: hval.splits option.splits obj.splits)

lemma collect_records:
  assumes "map (item_record h) items = map Some rs"
    and "map (\<lambda>r. metrics_of h (fst r)) rs = map Some ds"
  shows "collect h mv items = Inr (foldl collect_items mv ds)"
  using assms
proof (induction items arbitrary: rs ds mv)
  case Nil
  then show ?case by simp
next
  case (Cons item items)
  from Cons.prems(1) obtain r rs' where rs: "rs = r # rs'"
    and r: "item_record h item = Some r" and rs': "map (item_record h) items = map Some rs'"
    by (cases rs) auto
  from Cons.prems(2) rs obtain d ds' where ds: "ds = d # ds'"
    and d: "metrics_of h (fst r) = Some d"
    and ds': "map (\<lambda>r. metrics_of h (fst r)) rs' = map Some ds'"
    by (cases ds) auto
  from r have "getitem h item ''metrics'' = Inr (fst r)"
    by (cases r) (simp add: getitem_metrics)
  with d Cons.IH [OF rs' ds'] ds show ?case
    by (simp add: dict_items_metrics)
qed

lemma suffix_inject:
  assumes "n1 @ s1 = n2 @ s2" and "s1 \<in> stat_suffixes" and "s2 \<in> stat_suffixes"
  shows "n1 = n2 \<and> s1 = s2"
proof -
  from assms(1) have "rev s1 @ rev n1 = rev s2 @ rev n2"
    by (metis rev_append)
  with assms(2,3) show ?thesis
    by (auto simp: stat_suffixes_def)
qed

lemma suffix_not_num_files:
  assumes "s \<in> stat_suffixes"
  shows "n @ s \<noteq> ''num_files''"
proof
  assume "n @ s = ''num_files''"
  then have "rev s @ rev n = rev ''num_files''"
    by (metis rev_append)
  with assms show False
    by (auto simp: stat_suffixes_def)
qed

lemma dom_stats_map: "dom (stats_map n vs) = (\<lambda>s. n @ s) ` stat_suffixes"
  by (auto simp: stats_map_def stat_suffixes_def)

lemma map_of_aggregate_entry:
  "map_of (aggregate_entry acc (n, vs)) = map_of acc ++ stats_map n vs"
  by (simp add: aggregate_entry_def stats_map_def update_conv' Let_def)

lemma keys_aggregate_entry:
  "fst ` set (aggregate_entry acc (n, vs)) = fst ` set acc \<union> (\<lambda>s. n @ s) ` stat_suffixes"
  by (auto simp: aggregate_entry_def Let_def dom_update stat_suffixes_def)

lemma map_of_foldl_entry_hit:
  assumes "distinct (map fst mv)" and "(n, vs) \<in> set mv" and "s \<in> stat_suffixes"
  shows "map_of (foldl aggregate_entry acc mv) (n @ s) = stats_map n vs (n @ s)"
  using assms(1,2)
proof (induction mv rule: rev_induct)
  case Nil
  then show ?case by simp
next
  case (snoc p mv)
  obtain m ws where p: "p = (m, ws)" by (cases p)
  have key: "n @ s \<in> dom (stats_map n vs)"
    using assms(3) by (simp add: dom_stats_map)
  show ?case
  proof (cases "m = n")
    case True
    from snoc.prems(1) p have "m \<notin> fst ` set mv"
      by simp
    with snoc.prems(2) p True have "ws = vs"
      by force
    with True p key show ?thesis
      by (simp add: map_of_aggregate_entry map_add_dom_app_simps)
  next
    case False
    have "n @ s \<notin> dom (stats_map m ws)"
    proof
      assume "n @ s \<in> dom (stats_map m ws)"
      then obtain s' where "s' \<in> stat_suffixes" and "n @ s = m @ s'"
        by (auto simp: dom_stats_map)
      with suffix_inject [of n s m s'] assms(3) False show False
        by simp
    qed
    moreover from False snoc.prems p have "(n, vs) \<in> set mv" and "distinct (map fst mv)"
      by auto
    ultimately show ?thesis
      using snoc.IH p by (simp add: map_of_aggregate_entry map_add_dom_app_simps)
  qed
qed

lemma keys_foldl_entry:
  "fst ` set (foldl aggregate_entry acc mv) =
     fst ` set acc \<union> (\<Union>n\<in>fst ` set mv. (\<lambda>s. n @ s) ` stat_suffixes)"
proof (induction mv rule: rev_induct)
  case Nil
  then show ?case by simp
next
  case (snoc p mv)
  obtain m ws where p: "p = (m, ws)" by (cases p)
  show ?case
    unfolding p foldl_append foldl.simps keys_aggregate_entry snoc.IH by auto
qed

lemma stats_map_values:
  "stats_map n vs (n @ ''_mean'') = Some (HFloat (mean vs))"
  "stats_map n vs (n @ ''_std'') = Some (HFloat (if length vs > 1 then stdev vs else 0))"
  "stats_map n vs (n @ ''_min'') = Some (HFloat (Min (set vs)))"
  "stats_map n vs (n @ ''_max'') = Some (HFloat (Max (set vs)))"
  "stats_map n vs (n @ ''_median'') = Some (HFloat (median vs))"
  by (simp_all add: stats_map_def)

lemma values_in_nonempty:
  "values_in name d \<noteq> [] \<longleftrightarrow> (\<exists>kv\<in>set d. fst kv = name \<and> numeric (snd kv) \<noteq> None)"
proof (induction d)
  case Nil
  then show ?case by (simp add: values_in_Nil)
next
  case (Cons kv d)
  obtain k v where kv: "kv = (k, v)" by (cases kv)
  show ?case
    unfolding kv values_in_Cons using Cons.IH by (auto split: option.splits)
qed

lemma numeric_names_iff: "name \<in> numeric_names ds \<longleftrightarrow> values_of name ds \<noteq> []"
proof -
  have "values_of name ds \<noteq> [] \<longleftrightarrow> (\<exists>d\<in>set ds. values_in name d \<noteq> [])"
    by (auto simp: values_of_def)
  then show ?thesis
    by (auto simp: numeric_names_def values_in_nonempty)
qed

lemma map_of_collected:
  "map_of (foldl collect_items [] ds) name =
     (if values_of name ds = [] then None else Some (values_of name ds))"
  by (simp add: map_of_foldl_collect_items)

lemma keys_collected: "fst ` set (foldl collect_items [] ds) = numeric_names ds"
proof -
  have "name \<in> fst ` set (foldl collect_items [] ds) \<longleftrightarrow> name \<in> numeric_names ds" for name
  proof -
    have "name \<in> fst ` set (foldl collect_items [] ds)
            \<longleftrightarrow> map_of (foldl collect_items [] ds) name \<noteq> None"
      by (simp add: map_of_eq_None_iff)
    then show ?thesis
      by (simp add: map_of_collected numeric_names_iff)
  qed
  then show ?thesis by blast
qed

section \<open>Claims about the RTTM adapter\<close>

lemma those_map_total:
  "those (map f xs) =
     (if \<forall>x\<in>set xs. f x \<noteq> None then Some (map (\<lambda>x. the (f x)) xs) else None)"
  by (induction xs) (auto split: option.splits)

lemma line_segment_None:
  "line_segment pf l = None \<longleftrightarrow> pf (split l ! 3) = None \<or> pf (split l ! 4) = None"
  by (auto simp: line_segment_def split: option.splits)

lemma line_segment_the:
  "pf (split l ! 3) \<noteq> None \<Longrightarrow> pf (split l ! 4) \<noteq> None \<Longrightarrow>
     the (line_segment pf l) =
       ((the (pf (split l ! 3)), the (pf (split l ! 3)) + the (pf (split l ! 4))), split l ! 7)"
  by (auto simp: line_segment_def)

lemma rttm_to_annotation_those:
  "rttm_to_annotation pf text =
     (case those (map (line_segment pf) (remaining text)) of
        None \<Rightarrow> Inl ValueError
      | Some segs \<Rightarrow> Inr segs)"
  by (simp add: rttm_to_annotation_def remaining_def rttm_loop_those Annotation_def
      split: option.splits)

lemma roundtrip_lines:
  "file_lines roundtrip_text =
     [''SPEAKER f1 1 0.0 2.5 <NA> <NA> A <NA>\<newline>'',
      ''SPEAKER f1 1 2.5 3.0 <NA> <NA> B <NA>\<newline>'']"
  by (simp add: roundtrip_text_def file_lines_def)

lemma roundtrip_fields:
  "split (''SPEAKER f1 1 0.0 2.5 <NA> <NA> A <NA>\<newline>'') =
     [''SPEAKER'', ''f1'', ''1'', ''0.0'', ''2.5'', ''<NA>'', ''<NA>'', ''A'', ''<NA>'']"
  "split (''SPEAKER f1 1 2.5 3.0 <NA> <NA> B <NA>\<newline>'') =
     [''SPEAKER'', ''f1'', ''1'', ''2.5'', ''3.0'', ''<NA>'', ''<NA>'', ''B'', ''<NA>'']"
  by (simp_all add: split_def isspace_def)

lemma roundtrip_remaining: "remaining roundtrip_text = file_lines roundtrip_text"
  by (simp add: remaining_def roundtrip_lines skipped_iff roundtrip_fields)

lemma decimal_float_values:
  "decimal_float ''0.0'' = Some 0"
  "decimal_float ''2.5'' = Some (5 / 2)"
  "decimal_float ''3.0'' = Some 3"
  "decimal_float ''abc'' = None"
  by (simp_all add: decimal_float_def unsigned_decimal_def isdigit_def)

text \<open>
  Claim C5, as amended. The parser skips blank lines, lines starting with \<open>#\<close>, lines
  with fewer than 8 fields and lines whose first field is not \<open>SPEAKER\<close>, without
  raising. When \<^verbatim>\<open>float\<close> accepts fields 4 and 5 of every remaining line, the result
  is the timeline with exactly one Labeled Segment (start, start + duration, speaker) per
  remaining line, in order, read from fields 4, 5 and 8; when it rejects one of them, the
  parser raises \<^verbatim>\<open>ValueError\<close> and returns no timeline. The two-line input of the
  round-trip property yields exactly the segments (0.0, 2.5, A) and (2.5, 5.5, B).
\<close>

theorem rttm_remaining_lines:
  "rttm_to_annotation pf text =
     (if \<forall>l\<in>set (remaining text). pf (split l ! 3) \<noteq> None \<and> pf (split l ! 4) \<noteq> None
      then Inr (map (\<lambda>l. ((the (pf (split l ! 3)),
                           the (pf (split l ! 3)) + the (pf (split l ! 4))),
                          split l ! 7))
                 (remaining text))
      else Inl ValueError) \<and>
   (pf ''0.0'' = Some 0 \<and> pf ''2.5'' = Some (5 / 2) \<and> pf ''3.0'' = Some 3 \<longrightarrow>
      rttm_to_annotation pf roundtrip_text = Inr [((0, 5 / 2), ''A''), ((5 / 2, 11 / 2), ''B'')])"
proof
  let ?ok = "\<forall>l\<in>set (remaining text). pf (split l ! 3) \<noteq> None \<and> pf (split l ! 4) \<noteq> None"
  have all: "(\<forall>l\<in>set (remaining text). line_segment pf l \<noteq> None) \<longleftrightarrow> ?ok"
    by (simp add: line_segment_None)
  show "rttm_to_annotation pf text =
     (if ?ok
      then Inr (map (\<lambda>l. ((the (pf (split l ! 3)),
                           the (pf (split l ! 3)) + the (pf (split l ! 4))),
                          split l ! 7))
                 (remaining text))
      else Inl ValueError)"
  proof (cases ?ok)
    case True
    with all have "\<forall>l\<in>set (remaining text). line_segment pf l \<noteq> None"
      by blast
    then have those: "those (map (line_segment pf) (remaining text)) =
        Some (map (\<lambda>l. the (line_segment pf l)) (remaining text))"
      by (simp add: those_map_total)
    from True have "\<forall>l\<in>set (remaining text). the (line_segment pf l) =
        ((the (pf (split l ! 3)), the (pf (split l ! 3)) + the (pf (split l ! 4))), split l ! 7)"
      by (auto simp: line_segment_the)
    then have "map (\<lambda>l. the (line_segment pf l)) (remaining text) =
        map (\<lambda>l. ((the (pf (split l ! 3)), the (pf (split l ! 3)) + the (pf (split l ! 4))),
                   split l ! 7)) (remaining text)"
      by simp
    with those True show ?thesis
      by (simp add: rttm_to_annotation_those)
  next
    case False
    with all have "\<not> (\<forall>l\<in>set (remaining text). line_segment pf l \<noteq> None)"
      by blast
    then have "those (map (line_segment pf) (remaining text)) = None"
      by (simp add: those_map_total)
    with False show ?thesis
      by (simp add: rttm_to_annotation_those)
  qed
next
  show "pf ''0.0'' = Some 0 \<and> pf ''2.5'' = Some (5 / 2) \<and> pf ''3.0'' = Some 3 \<longrightarrow>
      rttm_to_annotation pf roundtrip_text = Inr [((0, 5 / 2), ''A''), ((5 / 2, 11 / 2), ''B'')]"
    by (simp add: rttm_to_annotation_those roundtrip_remaining roundtrip_lines line_segment_def
        roundtrip_fields)
qed

lemma tolerance_remaining:
  "remaining tolerance_text = [''SPEAKER f1 1 2.5 3.0 <NA> <NA> B <NA>\<newline>'']"
  by (simp add: remaining_def tolerance_text_def file_lines_def skipped_def split_def isspace_def
      startswith_def)

text \<open>
  The theorem at the input of the malformed-line tolerance property, with the decimal
  reading of \<^verbatim>\<open>float\<close>: the comment line and the short line are skipped, the valid
  line gives the one segment; and at the round-trip input.
\<close>

theorem rttm_remaining_lines_witness:
  "rttm_to_annotation decimal_float tolerance_text = Inr [((5 / 2, 11 / 2), ''B'')] \<and>
   rttm_to_annotation decimal_float roundtrip_text =
     Inr [((0, 5 / 2), ''A''), ((5 / 2, 11 / 2), ''B'')]"
  using rttm_remaining_lines [of decimal_float tolerance_text]
  by (simp add: tolerance_remaining roundtrip_fields decimal_float_values)

text \<open>
  Claim C5 as stated says that every line that is not skipped produces a Labeled Segment.
  The line below has nine fields and starts with \<open>SPEAKER\<close>, so it remains; its start
  field is \<open>abc\<close>, and the parser raises \<^verbatim>\<open>ValueError\<close> instead of producing a
  segment.
\<close>

theorem rttm_nonnumeric_counterexample:
  "remaining nonnumeric_text = [''SPEAKER f1 1 abc 2.5 <NA> <NA> A <NA>\<newline>''] \<and>
   rttm_to_annotation decimal_float nonnumeric_text = Inl ValueError"
  by (simp add: remaining_def nonnumeric_text_def file_lines_def skipped_def split_def isspace_def
      startswith_def rttm_to_annotation_def strip_def Annotation_def decimal_float_def
      unsigned_decimal_def isdigit_def)

lemma same_fields_segments:
  assumes "list_all2 same_fields ls1 ls2"
  shows "map (line_segment pf) (filter (\<lambda>l. \<not> skipped l) ls1) =
         map (line_segment pf) (filter (\<lambda>l. \<not> skipped l) ls2)"
  using assms
  by (induction rule: list_all2_induct)
    (auto simp: same_fields_def line_segment_def split: option.splits)

lemma those_line_segments:
  "those (map (line_segment pf) ls) =
     (if \<forall>l\<in>set ls. pf (split l ! 3) \<noteq> None \<and> pf (split l ! 4) \<noteq> None
      then Some (map (\<lambda>l. ((the (pf (split l ! 3)),
                            the (pf (split l ! 3)) + the (pf (split l ! 4))),
                           split l ! 7)) ls)
      else None)"
proof (induction ls)
  case Nil
  then show ?case by simp
next
  case (Cons l ls)
  show ?case
  proof (cases "pf (split l ! 3)")
    case None
    then show ?thesis by (simp add: line_segment_def)
  next
    case start: (Some start)
    show ?thesis
    proof (cases "pf (split l ! 4)")
      case None
      with start show ?thesis by (simp add: line_segment_def)
    next
      case (Some duration)
      with start Cons.IH show ?thesis by (simp add: line_segment_def)
    qed
  qed
qed

text \<open>
  Claim C10. The Labeled Segment of an accepted line depends only on fields 4, 5 and 8.
  Take two texts whose lines are, one by one, both skipped or both accepted with the
  same fields 4, 5 and 8, whatever their file-id, channel, placeholder and trailing
  fields. Then the parser gives the same result on both, and the result on the second
  text is fixed by fields 4, 5 and 8 of the accepted lines of the first: when
  \<^verbatim>\<open>float\<close> accepts fields 4 and 5 of all of them, it is the one timeline holding the
  segment (start, start + duration, speaker) of every accepted line, in order, whatever
  file-id the line carries; otherwise it is the \<^verbatim>\<open>ValueError\<close> of \<^verbatim>\<open>float\<close>.
\<close>

theorem rttm_depends_on_fields:
  assumes "list_all2 same_fields (file_lines t1) (file_lines t2)"
  shows "rttm_to_annotation pf t1 = rttm_to_annotation pf t2 \<and>
         rttm_to_annotation pf t2 =
           (if \<forall>l\<in>set (remaining t1). pf (split l ! 3) \<noteq> None \<and> pf (split l ! 4) \<noteq> None
            then Inr (map (\<lambda>l. ((the (pf (split l ! 3)),
                                 the (pf (split l ! 3)) + the (pf (split l ! 4))),
                                split l ! 7))
                       (remaining t1))
            else Inl ValueError)"
proof -
  from same_fields_segments [OF assms]
  have same: "rttm_to_annotation pf t1 = rttm_to_annotation pf t2"
    by (simp add: rttm_to_annotation_those remaining_def)
  have "rttm_to_annotation pf t1 =
      (if \<forall>l\<in>set (remaining t1). pf (split l ! 3) \<noteq> None \<and> pf (split l ! 4) \<noteq> None
       then Inr (map (\<lambda>l. ((the (pf (split l ! 3)),
                            the (pf (split l ! 3)) + the (pf (split l ! 4))),
                           split l ! 7))
                  (remaining t1))
       else Inl ValueError)"
    unfolding rttm_to_annotation_those those_line_segments by simp
  with same show ?thesis
    by simp
qed

lemma other_files_lines:
  "file_lines other_files_text =
     [''SPEAKER f2 7 0.0 2.5 x y A z more\<newline>'',
      ''SPEAKER f3 1 2.5 3.0 <NA> <NA> B\<newline>'']"
  by (simp add: other_files_text_def file_lines_def)

lemma other_files_fields:
  "split (''SPEAKER f2 7 0.0 2.5 x y A z more\<newline>'') =
     [''SPEAKER'', ''f2'', ''7'', ''0.0'', ''2.5'', ''x'', ''y'', ''A'', ''z'', ''more'']"
  "split (''SPEAKER f3 1 2.5 3.0 <NA> <NA> B\<newline>'') =
     [''SPEAKER'', ''f3'', ''1'', ''2.5'', ''3.0'', ''<NA>'', ''<NA>'', ''B'']"
  by (simp_all add: split_def isspace_def)

text \<open>
  The theorem at the round-trip input and at a text with other file-ids (\<open>f2\<close> on its
  first line, \<open>f3\<close> on its second), another channel, other placeholders and extra or
  missing trailing fields: \<^verbatim>\<open>float\<close> accepts the start and duration fields, and the
  parser returns the same timeline of two segments for both texts.
\<close>

theorem rttm_depends_on_fields_witness:
  "list_all2 same_fields (file_lines roundtrip_text) (file_lines other_files_text) \<and>
   map (\<lambda>l. split l ! 1) (file_lines other_files_text) = [''f2'', ''f3''] \<and>
   map (\<lambda>l. (decimal_float (split l ! 3), decimal_float (split l ! 4)))
     (remaining roundtrip_text) = [(Some 0, Some (5 / 2)), (Some (5 / 2), Some 3)] \<and>
   rttm_to_annotation decimal_float roundtrip_text =
     Inr [((0, 5 / 2), ''A''), ((5 / 2, 11 / 2), ''B'')] \<and>
   rttm_to_annotation decimal_float other_files_text =
     Inr [((0, 5 / 2), ''A''), ((5 / 2, 11 / 2), ''B'')]"
proof -
  have same: "list_all2 same_fields (file_lines roundtrip_text) (file_lines other_files_text)"
    by (simp add: roundtrip_lines other_files_lines same_fields_def skipped_iff roundtrip_fields
        other_files_fields)
  have ids: "map (\<lambda>l. split l ! 1) (file_lines other_files_text) = [''f2'', ''f3'']"
    by (simp add: other_files_lines other_files_fields)
  have accepted: "\<forall>l\<in>set (remaining roundtrip_text).
      decimal_float (split l ! 3) \<noteq> None \<and> decimal_float (split l ! 4) \<noteq> None"
    by (simp add: roundtrip_remaining roundtrip_lines roundtrip_fields decimal_float_values
        del: not_None_eq)
  from rttm_depends_on_fields [OF same, of decimal_float] accepted
  have "rttm_to_annotation decimal_float roundtrip_text =
          rttm_to_annotation decimal_float other_files_text"
    and "rttm_to_annotation decimal_float other_files_text =
          Inr (map (\<lambda>l. ((the (decimal_float (split l ! 3)),
                          the (decimal_float (split l ! 3)) + the (decimal_float (split l ! 4))),
                         split l ! 7))
                (remaining roundtrip_text))"
    by simp_all
  then have "rttm_to_annotation decimal_float roundtrip_text =
               Inr [((0, 5 / 2), ''A''), ((5 / 2, 11 / 2), ''B'')]"
    and "rttm_to_annotation decimal_float other_files_text =
               Inr [((0, 5 / 2), ''A''), ((5 / 2, 11 / 2), ''B'')]"
    by (simp_all add: roundtrip_remaining roundtrip_lines roundtrip_fields decimal_float_values)
  moreover have "map (\<lambda>l. (decimal_float (split l ! 3), decimal_float (split l ! 4)))
      (remaining roundtrip_text) = [(Some 0, Some (5 / 2)), (Some (5 / 2), Some 3)]"
    by (simp add: roundtrip_remaining roundtrip_lines roundtrip_fields decimal_float_values)
  ultimately show ?thesis
    using same ids by (intro conjI)
qed

section \<open>Claims about the hypothesis adapter\<close>

lemma loop_lacks:
  "list_all is_dict es \<Longrightarrow> \<exists>e\<in>set es. lacks_key e \<Longrightarrow>
     hypothesis_loop annotation es = Inl KeyError"
proof (induction es arbitrary: annotation)
  case Nil
  then show ?case by simp
next
  case (Cons e es)
  from Cons.prems obtain d where e: "e = PDict d" by (cases e) auto
  show ?case
  proof (cases "lacks_key e")
    case True
    with e show ?thesis
      by (auto split: option.splits)
  next
    case False
    with e obtain s t u where
      "map_of d ''start'' = Some s" "map_of d ''end'' = Some t" "map_of d ''speaker'' = Some u"
      by auto
    moreover from False Cons.prems have "list_all is_dict es" and "\<exists>e\<in>set es. lacks_key e"
      by auto
    ultimately show ?thesis
      using Cons.IH e by (simp add: Let_def)
  qed
qed

lemma hypothesis_to_annotation_entries:
  assumes "record_shape hypothesis"
  shows "hypothesis_to_annotation hypothesis = hypothesis_loop [] (entries hypothesis)"
    and "list_all is_dict (entries hypothesis)"
  using assms
  by (auto simp: hypothesis_to_annotation_def record_shape_def entries_def dict_get_def
      Annotation_def split: option.splits pyval.splits)

text \<open>
  Claim C6. For a hypothesis record of the expected shape (the value under
  \<^verbatim>\<open>segments\<close>, when there, is a list of dictionaries), the adapter raises
  \<^verbatim>\<open>KeyError\<close> if and only if some entry of the list lacks the key \<^verbatim>\<open>start\<close>,
  \<^verbatim>\<open>end\<close> or \<^verbatim>\<open>speaker\<close>, and it raises nothing else. A record whose entries
  all have the three keys yields the timeline of its entries, in order, and a record
  without the key \<^verbatim>\<open>segments\<close> yields the empty timeline.
\<close>

theorem hypothesis_key_error:
  assumes "record_shape hypothesis"
  shows "(hypothesis_to_annotation hypothesis = Inl KeyError
            \<longleftrightarrow> (\<exists>e\<in>set (entries hypothesis). lacks_key e)) \<and>
         (\<forall>err. hypothesis_to_annotation hypothesis = Inl err \<longrightarrow> err = KeyError) \<and>
         ((\<forall>e\<in>set (entries hypothesis). \<not> lacks_key e) \<longrightarrow>
            hypothesis_to_annotation hypothesis = Inr (map entry_segment (entries hypothesis))) \<and>
         (map_of hypothesis ''segments'' = None \<longrightarrow> hypothesis_to_annotation hypothesis = Inr [])"
proof -
  note eq = hypothesis_to_annotation_entries [OF assms]
  have lacks: "\<exists>e\<in>set (entries hypothesis). lacks_key e \<Longrightarrow>
      hypothesis_to_annotation hypothesis = Inl KeyError"
    using eq by (simp add: loop_lacks)
  have err: "hypothesis_to_annotation hypothesis = Inl err \<Longrightarrow>
      err = KeyError \<and> (\<exists>e\<in>set (entries hypothesis). lacks_key e)" for err
    using eq loop_error [of "entries hypothesis" "[]" err] by simp
  have ok: "\<forall>e\<in>set (entries hypothesis). \<not> lacks_key e \<Longrightarrow>
      hypothesis_to_annotation hypothesis = Inr (map entry_segment (entries hypothesis))"
    using eq loop_ok [of "entries hypothesis" "[]"] by simp
  have missing: "map_of hypothesis ''segments'' = None \<Longrightarrow> entries hypothesis = []"
    by (simp add: entries_def)
  from lacks err ok missing show ?thesis
    by (metis list.simps(8) empty_iff list.set(1))
qed

text \<open>
  The theorem at a record whose second entry has no \<^verbatim>\<open>end\<close>, at a record in the
  format of the test fixtures, and at a record without \<^verbatim>\<open>segments\<close>.
\<close>

theorem hypothesis_key_error_witness:
  "record_shape broken_hypothesis \<and>
   hypothesis_to_annotation broken_hypothesis = Inl KeyError \<and>
   record_shape sample_hypothesis \<and>
   hypothesis_to_annotation sample_hypothesis =
     Inr [((PFloat 0, PFloat (5 / 2)), PStr ''SPEAKER_00''),
          ((PFloat (5 / 2), PFloat (11 / 2)), PStr ''SPEAKER_01'')] \<and>
   record_shape [(''num_speakers'', PInt 2)] \<and>
   hypothesis_to_annotation [(''num_speakers'', PInt 2)] = Inr []"
proof -
  have b: "record_shape broken_hypothesis"
    by (simp add: record_shape_def broken_hypothesis_def)
  have s: "record_shape sample_hypothesis"
    by (simp add: record_shape_def sample_hypothesis_def)
  have n: "record_shape [(''num_speakers'', PInt 2)]"
    by (simp add: record_shape_def)
  have eb: "entries broken_hypothesis =
     [PDict [(''start'', PFloat 0), (''end'', PFloat (5 / 2)), (''speaker'', PStr ''SPEAKER_00'')],
      PDict [(''start'', PFloat (5 / 2)), (''speaker'', PStr ''SPEAKER_01'')]]"
    by (simp add: entries_def broken_hypothesis_def)
  have es: "entries sample_hypothesis =
     [PDict [(''start'', PFloat 0), (''end'', PFloat (5 / 2)), (''speaker'', PStr ''SPEAKER_00'')],
      PDict [(''start'', PFloat (5 / 2)), (''end'', PFloat (11 / 2)),
             (''speaker'', PStr ''SPEAKER_01'')]]"
    by (simp add: entries_def sample_hypothesis_def)
  from hypothesis_key_error [OF b] hypothesis_key_error [OF s] hypothesis_key_error [OF n]
  show ?thesis
    using b s n by (simp add: eb es)
qed

section \<open>Claims about the aggregator\<close>

lemma aggregate_summary:
  assumes "per_file h (get_per_file_metrics self) = Some rs"
    and "map (\<lambda>r. metrics_of h (fst r)) rs = map Some ds"
  shows "aggregate self h = Inr (length h, h @ [ODict (summary ds)])"
proof -
  from assms(1) obtain items where l: "deref h (self_metrics self) = Some (OList items)"
    and items: "map (item_record h) items = map Some rs"
    by (auto simp: per_file_def get_per_file_metrics_def those_eq_Some
        split: hval.splits option.splits obj.splits)
  from items have len: "length items = length rs"
    by (metis length_map)
  from assms(2) have len': "length rs = length ds"
    by (metis length_map)
  show ?thesis
  proof (cases "items = []")
    case True
    with len len' l show ?thesis
      by (simp add: aggregate_def summary_def alloc_def)
  next
    case False
    with len len' have "ds \<noteq> []" by auto
    with False l len len' collect_records [OF items assms(2), of "[]"] show ?thesis
      by (simp add: aggregate_def summary_def alloc_def Let_def)
  qed
qed

lemma summary_num_files:
  "ds \<noteq> [] \<Longrightarrow> map_of (summary ds) ''num_files'' = Some (HInt (int (length ds)))"
  by (simp add: summary_def update_conv')

lemma summary_keys:
  "ds \<noteq> [] \<Longrightarrow> fst ` set (summary ds) =
     insert ''num_files'' (\<Union>n\<in>numeric_names ds. (\<lambda>s. n @ s) ` stat_suffixes)"
  by (simp add: summary_def dom_update keys_foldl_entry keys_collected)

lemma summary_stats:
  assumes "ds \<noteq> []" and "n \<in> numeric_names ds" and "s \<in> stat_suffixes"
  shows "map_of (summary ds) (n @ s) = stats_map n (values_of n ds) (n @ s)"
proof -
  from assms(2) have "map_of (foldl collect_items [] ds) n = Some (values_of n ds)"
    by (simp add: map_of_collected numeric_names_iff)
  then have "(n, values_of n ds) \<in> set (foldl collect_items [] ds)"
    by (rule map_of_SomeD)
  moreover have "distinct (map fst (foldl collect_items [] ds))"
    by (rule distinct_foldl_collect_items) simp
  ultimately have "map_of (foldl aggregate_entry [] (foldl collect_items [] ds)) (n @ s) =
      stats_map n (values_of n ds) (n @ s)"
    using assms(3) by (intro map_of_foldl_entry_hit)
  with assms(1) suffix_not_num_files [OF assms(3), of n] show ?thesis
    by (simp add: summary_def update_conv')
qed

text \<open>
  Claim C7, as amended. When the aggregator holds at least one record, \<^verbatim>\<open>aggregate\<close>
  returns a new dictionary that has, for each metric name with a numeric value (an int,
  a float or a bool) in some record, the mean, the sample standard deviation (0 when
  there are fewer than 2 values), the minimum, the maximum and the median of the numeric
  values of that name across the records, in insertion order, under the name followed by
  \<open>_mean\<close>, \<open>_std\<close>, \<open>_min\<close>, \<open>_max\<close> and \<open>_median\<close>; it has
  \<open>num_files\<close>, the number of records; and it has no other key. (With no record
  it returns the empty dictionary: see the counterexample.)
\<close>

theorem aggregate_statistics:
  assumes "per_file h (get_per_file_metrics self) = Some rs" and "rs \<noteq> []"
    and "map (\<lambda>r. metrics_of h (fst r)) rs = map Some ds"
  shows "\<exists>R. aggregate self h = Inr (length h, h @ [ODict R]) \<and>
           map_of R ''num_files'' = Some (HInt (int (length rs))) \<and>
           fst ` set R =
             insert ''num_files'' (\<Union>n\<in>numeric_names ds. (\<lambda>s. n @ s) ` stat_suffixes) \<and>
           (\<forall>n\<in>numeric_names ds.
              map_of R (n @ ''_mean'') = Some (HFloat (mean (values_of n ds))) \<and>
              map_of R (n @ ''_std'') =
                Some (HFloat (if length (values_of n ds) > 1 then stdev (values_of n ds) else 0)) \<and>
              map_of R (n @ ''_min'') = Some (HFloat (Min (set (values_of n ds)))) \<and>
              map_of R (n @ ''_max'') = Some (HFloat (Max (set (values_of n ds)))) \<and>
              map_of R (n @ ''_median'') = Some (HFloat (median (values_of n ds))))"
proof -
  from assms(3) have len: "length rs = length ds"
    by (metis length_map)
  with assms(2) have ds: "ds \<noteq> []" by auto
  have "aggregate self h = Inr (length h, h @ [ODict (summary ds)])"
    using assms(1,3) by (rule aggregate_summary)
  moreover have "map_of (summary ds) ''num_files'' = Some (HInt (int (length rs)))"
    using ds len by (simp add: summary_num_files)
  moreover note summary_keys [OF ds]
  moreover have "\<forall>n\<in>numeric_names ds.
      map_of (summary ds) (n @ ''_mean'') = Some (HFloat (mean (values_of n ds))) \<and>
      map_of (summary ds) (n @ ''_std'') =
        Some (HFloat (if length (values_of n ds) > 1 then stdev (values_of n ds) else 0)) \<and>
      map_of (summary ds) (n @ ''_min'') = Some (HFloat (Min (set (values_of n ds)))) \<and>
      map_of (summary ds) (n @ ''_max'') = Some (HFloat (Max (set (values_of n ds)))) \<and>
      map_of (summary ds) (n @ ''_median'') = Some (HFloat (median (values_of n ds)))"
    using ds by (simp add: summary_stats stat_suffixes_def stats_map_values)
  ultimately show ?thesis by blast
qed

lemma der_state_reached:
  "init der_heap = (\<lparr>self_metrics = 3\<rparr>, der_heap @ [OList []])"
  "adds \<lparr>self_metrics = 3\<rparr> der_records (der_heap @ [OList []]) = Inr der_state"
  by (simp_all add: init_def alloc_def der_heap_def der_records_def der_state_def add_def deref_def)

lemma der_state_records:
  "per_file der_state (get_per_file_metrics \<lparr>self_metrics = 3\<rparr>) = Some der_records"
  "map (\<lambda>r. metrics_of der_state (fst r)) der_records =
     map Some [[(''DER'', HFloat (1 / 10))], [(''DER'', HFloat (1 / 5))], [(''DER'', HFloat (3 / 10))]]"
  "length der_state = 7"
  by (simp_all add: per_file_def get_per_file_metrics_def der_state_def der_heap_def
      der_records_def deref_def item_record_def metrics_of_def)

lemma der_values:
  "values_of ''DER'' [[(''DER'', HFloat (1 / 10))], [(''DER'', HFloat (1 / 5))],
     [(''DER'', HFloat (3 / 10))]] = [1 / 10, 1 / 5, 3 / 10]"
  by (simp add: values_of_def values_in_def List.map_filter_simps)

lemma der_statistics:
  "mean [1 / 10, 1 / 5, 3 / 10] = 1 / 5"
  "stdev [1 / 10, 1 / 5, 3 / 10] = 1 / 10"
  "Min (set [1 / 10, 1 / 5, 3 / 10 :: real]) = 1 / 10"
  "Max (set [1 / 10, 1 / 5, 3 / 10 :: real]) = 3 / 10"
  "median [1 / 10, 1 / 5, 3 / 10] = 1 / 5"
  by (simp_all add: mean_def stdev_def median_def real_sqrt_divide power2_eq_square)

text \<open>
  The theorem at the per-file DER values 0.10, 0.20 and 0.30, added to a new aggregator:
  mean 0.20, standard deviation 0.10, minimum 0.10, maximum 0.30, median 0.20, and 3 files.
\<close>

theorem aggregate_statistics_witness:
  "init der_heap = (\<lparr>self_metrics = 3\<rparr>, der_heap @ [OList []]) \<and>
   adds \<lparr>self_metrics = 3\<rparr> der_records (der_heap @ [OList []]) = Inr der_state \<and>
   (\<exists>R. aggregate \<lparr>self_metrics = 3\<rparr> der_state = Inr (7, der_state @ [ODict R]) \<and>
        map_of R ''DER_mean'' = Some (HFloat (1 / 5)) \<and>
        map_of R ''DER_std'' = Some (HFloat (1 / 10)) \<and>
        map_of R ''DER_min'' = Some (HFloat (1 / 10)) \<and>
        map_of R ''DER_max'' = Some (HFloat (3 / 10)) \<and>
        map_of R ''DER_median'' = Some (HFloat (1 / 5)) \<and>
        map_of R ''num_files'' = Some (HInt 3))"
proof (intro conjI)
  show "init der_heap = (\<lparr>self_metrics = 3\<rparr>, der_heap @ [OList []])"
    by (rule der_state_reached(1))
  show "adds \<lparr>self_metrics = 3\<rparr> der_records (der_heap @ [OList []]) = Inr der_state"
    by (rule der_state_reached(2))
  let ?ds = "[[(''DER'', HFloat (1 / 10))], [(''DER'', HFloat (1 / 5))],
              [(''DER'', HFloat (3 / 10))]]"
  have nonempty: "der_records \<noteq> []"
    by (simp add: der_records_def)
  have len: "int (length der_records) = 3"
    by (simp add: der_records_def)
  have name: "''DER'' \<in> numeric_names ?ds"
    by (simp add: numeric_names_iff der_values)
  from aggregate_statistics [OF der_state_records(1) nonempty der_state_records(2)]
  obtain R where
    res: "aggregate \<lparr>self_metrics = 3\<rparr> der_state = Inr (length der_state, der_state @ [ODict R])"
    and num: "map_of R ''num_files'' = Some (HInt (int (length der_records)))"
    and stats: "\<forall>n\<in>numeric_names ?ds.
        map_of R (n @ ''_mean'') = Some (HFloat (mean (values_of n ?ds))) \<and>
        map_of R (n @ ''_std'') =
          Some (HFloat (if length (values_of n ?ds) > 1 then stdev (values_of n ?ds) else 0)) \<and>
        map_of R (n @ ''_min'') = Some (HFloat (Min (set (values_of n ?ds)))) \<and>
        map_of R (n @ ''_max'') = Some (HFloat (Max (set (values_of n ?ds)))) \<and>
        map_of R (n @ ''_median'') = Some (HFloat (median (values_of n ?ds)))"
    by (elim exE conjE)
  from stats name have der:
    "map_of R (''DER'' @ ''_mean'') = Some (HFloat (mean (values_of ''DER'' ?ds))) \<and>
     map_of R (''DER'' @ ''_std'') =
       Some (HFloat (if length (values_of ''DER'' ?ds) > 1 then stdev (values_of ''DER'' ?ds)
                     else 0)) \<and>
     map_of R (''DER'' @ ''_min'') = Some (HFloat (Min (set (values_of ''DER'' ?ds)))) \<and>
     map_of R (''DER'' @ ''_max'') = Some (HFloat (Max (set (values_of ''DER'' ?ds)))) \<and>
     map_of R (''DER'' @ ''_median'') = Some (HFloat (median (values_of ''DER'' ?ds)))"
    by (rule bspec)
  show "\<exists>R. aggregate \<lparr>self_metrics = 3\<rparr> der_state = Inr (7, der_state @ [ODict R]) \<and>
        map_of R ''DER_mean'' = Some (HFloat (1 / 5)) \<and>
        map_of R ''DER_std'' = Some (HFloat (1 / 10)) \<and>
        map_of R ''DER_min'' = Some (HFloat (1 / 10)) \<and>
        map_of R ''DER_max'' = Some (HFloat (3 / 10)) \<and>
        map_of R ''DER_median'' = Some (HFloat (1 / 5)) \<and>
        map_of R ''num_files'' = Some (HInt 3)"
  proof (intro exI [of _ R] conjI)
    show "aggregate \<lparr>self_metrics = 3\<rparr> der_state = Inr (7, der_state @ [ODict R])"
      using res by (simp only: der_state_records(3))
    show "map_of R ''num_files'' = Some (HInt 3)"
      using num by (simp only: len)
    from der have "map_of R (''DER'' @ ''_mean'') = Some (HFloat (mean [1 / 10, 1 / 5, 3 / 10]))"
      by (simp only: der_values)
    then show "map_of R ''DER_mean'' = Some (HFloat (1 / 5))"
      by (simp add: der_statistics)
    from der have "map_of R (''DER'' @ ''_std'') =
        Some (HFloat (if length [1 / 10, 1 / 5, 3 / 10 :: real] > 1
                      then stdev [1 / 10, 1 / 5, 3 / 10] else 0))"
      by (simp only: der_values)
    then show "map_of R ''DER_std'' = Some (HFloat (1 / 10))"
      by (simp add: der_statistics)
    from der have "map_of R (''DER'' @ ''_min'') = Some (HFloat (Min (set [1 / 10, 1 / 5, 3 / 10])))"
      by (simp only: der_values)
    then show "map_of R ''DER_min'' = Some (HFloat (1 / 10))"
      by (simp only: der_statistics append.simps)
    from der have "map_of R (''DER'' @ ''_max'') = Some (HFloat (Max (set [1 / 10, 1 / 5, 3 / 10])))"
      by (simp only: der_values)
    then show "map_of R ''DER_max'' = Some (HFloat (3 / 10))"
      by (simp only: der_statistics append.simps)
    from der have "map_of R (''DER'' @ ''_median'') = Some (HFloat (median [1 / 10, 1 / 5, 3 / 10]))"
      by (simp only: der_values)
    then show "map_of R ''DER_median'' = Some (HFloat (1 / 5))"
      by (simp add: der_statistics)
  qed
qed

text \<open>
  Claim C7 as stated covers every sequence of added records, the empty one too. On a new
  aggregator, to which nothing was added, \<^verbatim>\<open>aggregate\<close> takes its early return: the
  dictionary it returns is empty and has no key \<open>num_files\<close>.
\<close>

theorem aggregate_empty_counterexample:
  "init [] = (\<lparr>self_metrics = 0\<rparr>, [OList []]) \<and>
   adds \<lparr>self_metrics = 0\<rparr> [] [OList []] = Inr [OList []] \<and>
   aggregate \<lparr>self_metrics = 0\<rparr> [OList []] = Inr (1, [OList [], ODict []])"
  by (simp add: init_def alloc_def aggregate_def deref_def)

lemma metrics_dictionaries:
  assumes "list_all (\<lambda>r. metrics_of h (fst r) \<noteq> None) rs"
  shows "map (\<lambda>r. metrics_of h (fst r)) rs = map Some (map (\<lambda>r. the (metrics_of h (fst r))) rs)"
  using assms by (induction rs) auto

lemma metrics_dictionaries_append:
  assumes "map (\<lambda>r. metrics_of h (fst r)) rs = map Some ds"
  shows "map (\<lambda>r. metrics_of (h @ hs) (fst r)) rs = map Some ds"
  using assms
proof (induction rs arbitrary: ds)
  case Nil
  then show ?case by simp
next
  case (Cons r rs)
  then show ?case by (cases ds) (auto simp: metrics_of_append)
qed

lemma aggregate_twice:
  assumes "per_file h (get_per_file_metrics self) = Some rs"
    and "map (\<lambda>r. metrics_of h (fst r)) rs = map Some ds"
  shows "aggregate self h = Inr (length h, h @ [ODict (summary ds)])"
    and "aggregate self (h @ [ODict (summary ds)]) =
           Inr (Suc (length h), h @ [ODict (summary ds), ODict (summary ds)])"
    and "per_file (h @ [ODict (summary ds)]) (get_per_file_metrics self) = Some rs"
    and "per_file (h @ [ODict (summary ds), ODict (summary ds)]) (get_per_file_metrics self) = Some rs"
proof -
  let ?h' = "h @ [ODict (summary ds)]"
  show "aggregate self h = Inr (length h, ?h')"
    using assms by (rule aggregate_summary)
  show p': "per_file ?h' (get_per_file_metrics self) = Some rs"
    using assms(1) by (rule per_file_append)
  have "map (\<lambda>r. metrics_of ?h' (fst r)) rs = map Some ds"
    using assms(2) by (rule metrics_dictionaries_append)
  with p' have "aggregate self ?h' = Inr (length ?h', ?h' @ [ODict (summary ds)])"
    by (rule aggregate_summary)
  then show "aggregate self ?h' = Inr (Suc (length h), h @ [ODict (summary ds), ODict (summary ds)])"
    by simp
  show "per_file (h @ [ODict (summary ds), ODict (summary ds)]) (get_per_file_metrics self) = Some rs"
    using assms(1) by (rule per_file_append)
qed

text \<open>
  Claim C9. After \<^verbatim>\<open>__init__\<close> and any sequence of calls of \<^verbatim>\<open>add\<close>, what
  \<^verbatim>\<open>get_per_file_metrics\<close> returns holds the added records, unmodified and in
  insertion order. When the metrics of the records are dictionaries, \<^verbatim>\<open>aggregate\<close>
  returns a dictionary at an address that was not in use, and the heap after the call is
  the heap before it with that one object added: no record, list or metrics dictionary
  changes. A second call returns an equal dictionary at another new address, and
  \<^verbatim>\<open>get_per_file_metrics\<close> holds the same records after each call.
\<close>

theorem aggregate_frame:
  assumes "init h0 = (self, h1)"
  shows "\<exists>h. adds self rs h1 = Inr h \<and>
           per_file h (get_per_file_metrics self) = Some rs \<and>
           (list_all (\<lambda>r. metrics_of h (fst r) \<noteq> None) rs \<longrightarrow>
              (\<exists>R. aggregate self h = Inr (length h, h @ [ODict R]) \<and>
                   deref h (length h) = None \<and>
                   aggregate self (h @ [ODict R]) = Inr (Suc (length h), h @ [ODict R, ODict R]) \<and>
                   per_file (h @ [ODict R]) (get_per_file_metrics self) = Some rs \<and>
                   per_file (h @ [ODict R, ODict R]) (get_per_file_metrics self) = Some rs))"
proof -
  from init_per_file(3) [OF assms] have "per_file h1 (get_per_file_metrics self) = Some []" .
  from adds_per_file [OF this, of rs] obtain h where
    h: "adds self rs h1 = Inr h" and p: "per_file h (get_per_file_metrics self) = Some rs"
    by auto
  have "\<exists>R. aggregate self h = Inr (length h, h @ [ODict R]) \<and>
           deref h (length h) = None \<and>
           aggregate self (h @ [ODict R]) = Inr (Suc (length h), h @ [ODict R, ODict R]) \<and>
           per_file (h @ [ODict R]) (get_per_file_metrics self) = Some rs \<and>
           per_file (h @ [ODict R, ODict R]) (get_per_file_metrics self) = Some rs"
    if "list_all (\<lambda>r. metrics_of h (fst r) \<noteq> None) rs"
  proof -
    let ?ds = "map (\<lambda>r. the (metrics_of h (fst r))) rs"
    note ds = metrics_dictionaries [OF that]
    show ?thesis
      using aggregate_twice [OF p ds] by (intro exI [of _ "summary ?ds"] conjI) (simp_all add: deref_def)
  qed
  with h p show ?thesis by blast
qed

text \<open>
  The theorem at the three DER records: the calls of \<^verbatim>\<open>add\<close> reach the store
  \<open>der_state\<close>, the first result is object 7, the second object 8, and the records
  are as added.
\<close>

theorem aggregate_frame_witness:
  "init der_heap = (\<lparr>self_metrics = 3\<rparr>, der_heap @ [OList []]) \<and>
   adds \<lparr>self_metrics = 3\<rparr> der_records (der_heap @ [OList []]) = Inr der_state \<and>
   per_file der_state (get_per_file_metrics \<lparr>self_metrics = 3\<rparr>) = Some der_records \<and>
   list_all (\<lambda>r. metrics_of der_state (fst r) \<noteq> None) der_records \<and>
   (\<exists>R. aggregate \<lparr>self_metrics = 3\<rparr> der_state = Inr (7, der_state @ [ODict R]) \<and>
        aggregate \<lparr>self_metrics = 3\<rparr> (der_state @ [ODict R]) =
          Inr (8, der_state @ [ODict R, ODict R]) \<and>
        per_file (der_state @ [ODict R, ODict R]) (get_per_file_metrics \<lparr>self_metrics = 3\<rparr>) =
          Some der_records)"
proof -
  have dicts: "list_all (\<lambda>r. metrics_of der_state (fst r) \<noteq> None) der_records"
    by (simp add: der_records_def der_state_def der_heap_def metrics_of_def deref_def)
  from aggregate_frame [OF der_state_reached(1), of der_records] obtain h where
    h: "adds \<lparr>self_metrics = 3\<rparr> der_records (der_heap @ [OList []]) = Inr h"
    and rest: "list_all (\<lambda>r. metrics_of h (fst r) \<noteq> None) der_records \<longrightarrow>
              (\<exists>R. aggregate \<lparr>self_metrics = 3\<rparr> h = Inr (length h, h @ [ODict R]) \<and>
                   deref h (length h) = None \<and>
                   aggregate \<lparr>self_metrics = 3\<rparr> (h @ [ODict R]) =
                     Inr (Suc (length h), h @ [ODict R, ODict R]) \<and>
                   per_file (h @ [ODict R]) (get_per_file_metrics \<lparr>self_metrics = 3\<rparr>) =
                     Some der_records \<and>
                   per_file (h @ [ODict R, ODict R]) (get_per_file_metrics \<lparr>self_metrics = 3\<rparr>) =
                     Some der_records)"
    by (elim exE conjE)
  from h der_state_reached(2) have eq: "h = der_state"
    by simp
  from rest dicts obtain R where
    "aggregate \<lparr>self_metrics = 3\<rparr> der_state = Inr (length der_state, der_state @ [ODict R])"
    "aggregate \<lparr>self_metrics = 3\<rparr> (der_state @ [ODict R]) =
       Inr (Suc (length der_state), der_state @ [ODict R, ODict R])"
    "per_file (der_state @ [ODict R, ODict R]) (get_per_file_metrics \<lparr>self_metrics = 3\<rparr>) =
       Some der_records"
    unfolding eq by (elim impE exE conjE)
  then have "\<exists>R. aggregate \<lparr>self_metrics = 3\<rparr> der_state = Inr (7, der_state @ [ODict R]) \<and>
        aggregate \<lparr>self_metrics = 3\<rparr> (der_state @ [ODict R]) =
          Inr (8, der_state @ [ODict R, ODict R]) \<and>
        per_file (der_state @ [ODict R, ODict R]) (get_per_file_metrics \<lparr>self_metrics = 3\<rparr>) =
          Some der_records"
    by (intro exI [of _ R]) (simp add: der_state_records(3))
  with dicts der_state_reached der_state_records(1) show ?thesis
    by (intro conjI)
qed

end
